theory Spec2Isabelle
  imports Main "HOL-Library.Word" "HOL-Library.Sublist"
begin

section \<open>Strings of the host language\<close>

text \<open>
  A string of the widget's host language is a sequence of 16-bit code units, and
  \<open>length\<close>, \<open>indexOf\<close> and \<open>substring\<close> count code units. \<open>js\<close> writes an
  ASCII literal as such a string.
\<close>

type_synonym jsstring = "16 word list"

definition js :: "string \<Rightarrow> jsstring" where
  "js s = map of_char s"

text \<open>
  \<open>toLowerCase\<close> follows the locale-insensitive Unicode lower-case mapping. The model is
  exact on the code units of Basic Latin and Latin-1 Supplement (U+0000 to U+00FF) and on
  U+0130 (capital I with dot above), whose lower case is the two code units U+0069 U+0307:
  the one mapping that changes the length of a string. Every other code unit is left as
  it is; strings with cased letters beyond that range are outside the exact range of the
  model. The results on an absent match and on the concatenation of the pieces hold for
  any table; the theorem on filtering is stated for strings within U+0000 to U+00FF.
\<close>

definition lowerUnit :: "16 word \<Rightarrow> 16 word list" where
  "lowerUnit c =
     (if 0x41 \<le> c \<and> c \<le> 0x5A then [c + 0x20]
      else if 0xC0 \<le> c \<and> c \<le> 0xDE \<and> c \<noteq> 0xD7 then [c + 0x20]
      else if c = 0x130 then [0x69, 0x307]
      else [c])"

definition toLowerCase :: "jsstring \<Rightarrow> jsstring" where
  "toLowerCase s = concat (map lowerUnit s)"

text \<open>
  \<open>indexOf\<close> scans the positions from the left and returns the first one at which the
  search string starts, or \<open>-1\<close>; the empty search string is found at position 0.
  \<open>includes\<close> (here \<open>includesStr\<close>) is \<open>indexOf \<noteq> -1\<close>. Both compare code units
  literally: the search string is never read as a pattern.
\<close>

fun indexOfFrom :: "jsstring \<Rightarrow> jsstring \<Rightarrow> nat \<Rightarrow> int" where
  "indexOfFrom [] search i = (if search = [] then int i else - 1)"
| "indexOfFrom (c # cs) search i =
     (if prefix search (c # cs) then int i else indexOfFrom cs search (i + 1))"

definition indexOf :: "jsstring \<Rightarrow> jsstring \<Rightarrow> int" where
  "indexOf s search = indexOfFrom s search 0"

definition includesStr :: "jsstring \<Rightarrow> jsstring \<Rightarrow> bool" where
  "includesStr s search = (indexOf s search \<noteq> - 1)"

text \<open>
  \<open>substring(start, end)\<close> clamps both indices to the string and swaps them when they
  are out of order; without the second argument the end is the length of the string.
\<close>

definition substring :: "jsstring \<Rightarrow> int \<Rightarrow> int \<Rightarrow> jsstring" where
  "substring s start end' =
     (let len = int (length s);
          intStart = min (max start 0) len;
          intEnd = min (max end' 0) len;
          fromIdx = min intStart intEnd;
          toIdx = max intStart intEnd
      in take (nat (toIdx - fromIdx)) (drop (nat fromIdx) s))"

definition substringFrom :: "jsstring \<Rightarrow> int \<Rightarrow> jsstring" where
  "substringFrom s start = substring s start (int (length s))"

section \<open>The component's state and its handlers\<close>

text \<open>The four \<open>useState\<close> cells of \<open>AutoComplete\<close>.\<close>

record state =
  inputValue :: jsstring
  filteredData :: "jsstring list"
  loading :: bool
  showDropdown :: bool

definition handleChange :: "jsstring \<Rightarrow> state \<Rightarrow> state" where
  "handleChange v s = s\<lparr>inputValue := v, showDropdown := True\<rparr>"

definition handleClick :: "jsstring \<Rightarrow> state \<Rightarrow> state" where
  "handleClick v s = s\<lparr>inputValue := v, showDropdown := False\<rparr>"

definition handleOutsideClick :: "state \<Rightarrow> state" where
  "handleOutsideClick s = s\<lparr>showDropdown := False, filteredData := []\<rparr>"

text \<open>
  The callback that \<open>AutoComplete\<close> hands to \<open>useDebounce\<close> (the body of
  \<open>debounceFilter\<close>): a non-empty value filters \<open>data\<close>, and loading is switched off in
  either case.
\<close>

definition debounceFilter_callback :: "jsstring list \<Rightarrow> jsstring \<Rightarrow> state \<Rightarrow> state" where
  "debounceFilter_callback data v s =
     (let s1 = (if v \<noteq> []
                then s\<lparr>filteredData :=
                        filter (\<lambda>item. includesStr (toLowerCase item) (toLowerCase v)) data\<rparr>
                else s)
      in s1\<lparr>loading := False\<rparr>)"

subsection \<open>Highlighting\<close>

text \<open>
  \<open>highlightMatch\<close> returns either the item itself (\<open>Text\<close>) or a fragment of three
  pieces, the middle one inside the \<open>highlightStyle\<close> span. The first argument is the
  \<open>inputValue\<close> the closure reads.
\<close>

datatype node = Text jsstring | Fragment jsstring jsstring jsstring

definition highlightMatch :: "jsstring \<Rightarrow> jsstring \<Rightarrow> node" where
  "highlightMatch query item =
     (let index = indexOf (toLowerCase item) (toLowerCase query)
      in if index = - 1 then Text item
         else Fragment (substring item 0 index)
                (substring item index (index + int (length query)))
                (substringFrom item (index + int (length query))))"

text \<open>
  The specification's view of the result, (prefix, match, suffix): an item returned as
  it is has no emphasised span.
\<close>

fun pieces :: "node \<Rightarrow> jsstring \<times> jsstring \<times> jsstring" where
  "pieces (Text item) = (item, [], [])"
| "pieces (Fragment p m s) = (p, m, s)"

text \<open>
  What the filter and the highlighter compute: the lower-cased query is a contiguous run
  of the lower-cased candidate.
\<close>

definition ci_contains :: "jsstring \<Rightarrow> jsstring \<Rightarrow> bool" where
  "ci_contains item query = sublist (toLowerCase query) (toLowerCase item)"

text \<open>
  A candidate or a query is \<open>plain\<close> when it has no U+0130, so that lower-casing keeps
  every code unit at its position.
\<close>

definition plain :: "jsstring \<Rightarrow> bool" where
  "plain s = (0x130 \<notin> set s)"

text \<open>
  Following the specification's words, without lower-casing anything: the letters of
  Basic Latin and Latin-1 Supplement come in pairs of a capital and a small form, listed
  in two tables; two code units are the same up to case when they are equal or are the
  two forms of one letter; and a candidate case-insensitively contains the query as a
  literal substring when at some position it has a run of the query's length that is
  the query, code unit by code unit, up to case.
\<close>

definition capitals :: jsstring where
  "capitals = js ''ABCDEFGHIJKLMNOPQRSTUVWXYZ'' @ map of_nat ([0xC0..<0xD7] @ [0xD8..<0xDF])"

definition smalls :: jsstring where
  "smalls = js ''abcdefghijklmnopqrstuvwxyz'' @ map of_nat ([0xE0..<0xF7] @ [0xF8..<0xFF])"

definition same_letter :: "16 word \<Rightarrow> 16 word \<Rightarrow> bool" where
  "same_letter a b =
     (a = b \<or> (a, b) \<in> set (zip capitals smalls) \<or> (b, a) \<in> set (zip capitals smalls))"



subsection \<open>Rendering the dropdown\<close>

text \<open>
  \<open>Dropdown\<close> shows the no-match row for an empty list and one highlighted row per item
  otherwise; \<open>AutoComplete\<close> mounts it only while \<open>showDropdown\<close> holds.
\<close>

datatype listing = NoMatch | Rows "node list"

definition Dropdown :: "jsstring list \<Rightarrow> (jsstring \<Rightarrow> node) \<Rightarrow> listing" where
  "Dropdown items highlight = (if items = [] then NoMatch else Rows (map highlight items))"

definition renderDropdown :: "state \<Rightarrow> listing option" where
  "renderDropdown s =
     (if showDropdown s then Some (Dropdown (filteredData s) (highlightMatch (inputValue s)))
      else None)"

section \<open>Timers and the debounce hook\<close>

text \<open>
  The host's timers, as far as the widget uses them: a table of pending timeouts (id, due
  time in milliseconds, arguments of the call), the next id \<open>setTimeout\<close> hands out, and
  the clock. \<open>timeoutRef\<close> is the \<open>useRef\<close> cell of \<open>useDebounce\<close>, one per component
  instance and shared by the closures of all renders. \<open>app\<close> is the state the callback
  acts on, and \<open>fired\<close> records every timeout that ran (due time, arguments). Every
  timeout of one wrapper runs the same callback, so the table keeps the arguments and the
  callback is supplied where the timeout runs.
\<close>

record ('a, 's) env =
  clock :: nat
  timers :: "(nat \<times> nat \<times> 'a) list"
  nextId :: nat
  timeoutRef :: "nat option"
  app :: 's
  fired :: "(nat \<times> 'a) list"

definition setTimeout :: "'a \<Rightarrow> nat \<Rightarrow> ('a, 's) env \<Rightarrow> nat \<times> ('a, 's) env" where
  "setTimeout args delay e =
     (nextId e,
      e\<lparr>timers := timers e @ [(nextId e, clock e + delay, args)], nextId := Suc (nextId e)\<rparr>)"

definition clearTimeout :: "nat option \<Rightarrow> ('a, 's) env \<Rightarrow> ('a, 's) env" where
  "clearTimeout h e =
     (case h of None \<Rightarrow> e
      | Some i \<Rightarrow> e\<lparr>timers := filter (\<lambda>x. fst x \<noteq> i) (timers e)\<rparr>)"

text \<open>
  The closure \<open>useDebounce\<close> returns: clear the timeout the cell holds, set a new one,
  store its id.
\<close>

definition useDebounce :: "nat \<Rightarrow> 'a \<Rightarrow> ('a, 's) env \<Rightarrow> ('a, 's) env" where
  "useDebounce delay args e =
     (let e1 = clearTimeout (timeoutRef e) e;
          (i, e2) = setTimeout args delay e1
      in e2\<lparr>timeoutRef := Some i\<rparr>)"

text \<open>
  Time passes to \<open>t\<close>: the timeouts due by then run in the order of their due times
  (equal due times in the order they were set), each applying the callback to its
  arguments. A callback of this program sets no timer.
\<close>

definition due :: "nat \<Rightarrow> nat \<times> nat \<times> 'a \<Rightarrow> bool" where
  "due t x = (fst (snd x) \<le> t)"

definition advance :: "('a \<Rightarrow> 's \<Rightarrow> 's) \<Rightarrow> nat \<Rightarrow> ('a, 's) env \<Rightarrow> ('a, 's) env" where
  "advance callback t e =
     (let ready = sort_key (\<lambda>x. fst (snd x)) (filter (due t) (timers e))
      in e\<lparr>clock := max (clock e) t,
           timers := filter (\<lambda>x. \<not> due t x) (timers e),
           app := fold (\<lambda>x. callback (snd (snd x))) ready (app e),
           fired := fired e @ map snd ready\<rparr>)"

text \<open>A sequence of calls of the debounced function, each at its time.\<close>

fun runCalls ::
  "('a \<Rightarrow> 's \<Rightarrow> 's) \<Rightarrow> nat \<Rightarrow> (nat \<times> 'a) list \<Rightarrow> ('a, 's) env \<Rightarrow> ('a, 's) env" where
  "runCalls callback delay [] e = e"
| "runCalls callback delay ((t, args) # cs) e =
     runCalls callback delay cs (useDebounce delay args (advance callback t e))"

text \<open>Each call comes after the one before it and within the quiet period of it.\<close>

fun withinQuiet :: "nat \<Rightarrow> nat list \<Rightarrow> bool" where
  "withinQuiet delay (t # u # ts) = (t \<le> u \<and> u < t + delay \<and> withinQuiet delay (u # ts))"
| "withinQuiet delay ts = True"

section \<open>The running widget\<close>

text \<open>
  The two effects that depend on \<open>inputValue\<close>: switch loading on and call the debounced
  filter with the value, then clear the results when the value is empty. They run at
  mount and after every render in which \<open>inputValue\<close> differs from its value at the
  render before (\<open>debounceFilter\<close> is memoised on \<open>inputValue\<close>, so it changes when
  \<open>inputValue\<close> does and never else). The effects of an event run before the next event
  is handled.
\<close>

type_synonym widget = "(jsstring, state) env"

definition inputEffects :: "widget \<Rightarrow> widget" where
  "inputEffects e =
     (let e1 = e\<lparr>app := (app e)\<lparr>loading := True\<rparr>\<rparr>;
          e2 = useDebounce 500 (inputValue (app e1)) e1
      in if inputValue (app e2) = [] then e2\<lparr>app := (app e2)\<lparr>filteredData := []\<rparr>\<rparr> else e2)"

definition effects :: "jsstring \<Rightarrow> widget \<Rightarrow> widget" where
  "effects before e = (if inputValue (app e) = before then e else inputEffects e)"

definition mount :: widget where
  "mount = inputEffects
     \<lparr>clock = 0, timers = [], nextId = 1, timeoutRef = None,
      app = \<lparr>inputValue = [], filteredData = [], loading = False, showDropdown = False\<rparr>,
      fired = []\<rparr>"

text \<open>
  What a click can hit: something outside the widget, the text box, the row of the
  dropdown at an index, or the no-match row. A row can be hit only while it is rendered.
\<close>

datatype target = Outside | InputBox | Row nat | NoMatchRow

definition rendered :: "target \<Rightarrow> state \<Rightarrow> bool" where
  "rendered tg s =
     (case tg of
        Row i \<Rightarrow> showDropdown s \<and> i < length (filteredData s)
      | NoMatchRow \<Rightarrow> showDropdown s \<and> filteredData s = []
      | _ \<Rightarrow> True)"

text \<open>The \<open>onClick\<close> of the element hit: only the rows of the dropdown have one.\<close>

definition targetHandler :: "target \<Rightarrow> state \<Rightarrow> state" where
  "targetHandler tg s = (case tg of Row i \<Rightarrow> handleClick (filteredData s ! i) s | _ \<Rightarrow> s)"

text \<open>
  A click runs the handler of the element hit and then bubbles to the document, where
  the listener that \<open>AutoComplete\<close> registers at mount runs \<open>handleOutsideClick\<close>
  whatever the target is. The hook \<open>useOutsideClick\<close> is not among the sources; whether
  it called \<open>handleOutsideClick\<close> for this click is the parameter \<open>hook\<close>.
\<close>

definition click :: "target \<Rightarrow> bool \<Rightarrow> state \<Rightarrow> state" where
  "click tg hook s =
     (let s1 = targetHandler tg s;
          s2 = (if hook then handleOutsideClick s1 else s1)
      in handleOutsideClick s2)"

text \<open>
  The events of the running widget: the text box reports a new value, a click hits a
  target, or time passes to \<open>t\<close>. An event is handled at the time the clock shows. The
  text box reports a value only when it differs from the one shown; the model admits
  the report of the same value as well, which runs \<open>handleChange\<close> and no effect. A
  click on a target that is not rendered cannot happen and leaves the state as it is.
\<close>

datatype event = Change jsstring | Click target bool | Tick nat

fun step :: "jsstring list \<Rightarrow> event \<Rightarrow> widget \<Rightarrow> widget" where
  "step data (Change v) e = effects (inputValue (app e)) (e\<lparr>app := handleChange v (app e)\<rparr>)"
| "step data (Click tg hook) e =
     (if rendered tg (app e)
      then effects (inputValue (app e)) (e\<lparr>app := click tg hook (app e)\<rparr>)
      else e)"
| "step data (Tick t) e = advance (debounceFilter_callback data) t e"

definition run :: "jsstring list \<Rightarrow> event list \<Rightarrow> widget" where
  "run data evs = fold (step data) evs mount"

section \<open>A candidate list that is not an array of strings\<close>

text \<open>
  The type of the \<open>data\<close> prop is erased when the widget runs. With the values a caller
  can pass, \<open>data.filter\<close> throws on a value that is no array, and \<open>item.toLowerCase\<close>
  throws on an item that is no string.
\<close>

datatype jsvalue = Undefined | Null | Number int | String jsstring | Array "jsvalue list"

datatype error = TypeError

fun filterItems :: "jsstring \<Rightarrow> jsvalue list \<Rightarrow> error + jsstring list" where
  "filterItems v [] = Inr []"
| "filterItems v (String item # xs) =
     (case filterItems v xs of
        Inl err \<Rightarrow> Inl err
      | Inr rest \<Rightarrow>
          Inr (if includesStr (toLowerCase item) (toLowerCase v) then item # rest else rest))"
| "filterItems v (x # xs) = Inl TypeError"

definition dataFilter :: "jsvalue \<Rightarrow> jsstring \<Rightarrow> error + jsstring list" where
  "dataFilter data v = (case data of Array xs \<Rightarrow> filterItems v xs | _ \<Rightarrow> Inl TypeError)"

definition debounceFilter_callback_untyped :: "jsvalue \<Rightarrow> jsstring \<Rightarrow> state \<Rightarrow> error + state" where
  "debounceFilter_callback_untyped data v s =
     (if v \<noteq> []
      then (case dataFilter data v of
              Inl err \<Rightarrow> Inl err
            | Inr filtered \<Rightarrow> Inr (s\<lparr>filteredData := filtered, loading := False\<rparr>))
      else Inr (s\<lparr>loading := False\<rparr>))"

fun isString :: "jsvalue \<Rightarrow> bool" where
  "isString (String s) = True"
| "isString x = False"

fun isStringArray :: "jsvalue \<Rightarrow> bool" where
  "isStringArray (Array xs) = list_all isString xs"
| "isStringArray x = False"

text \<open>The candidate list of the component's own test.\<close>

definition test_data :: "jsstring list" where
  "test_data = [js ''Item 1'', js ''Item 2'', js ''Item 3'']"

section \<open>The invariant of the running widget\<close>

text \<open>
  At most one timeout is pending, it is the one the cell names and its argument is the
  current \<open>inputValue\<close>; loading is on exactly while it is pending; and an empty
  \<open>inputValue\<close> comes with empty results.
\<close>

definition widget_inv :: "widget \<Rightarrow> bool" where
  "widget_inv e =
     ((timers e = [] \<or> (\<exists>i d. timers e = [(i, d, inputValue (app e))] \<and> timeoutRef e = Some i)) \<and>
      loading (app e) = (timers e \<noteq> []) \<and>
      (inputValue (app e) = [] \<longrightarrow> filteredData (app e) = []))"

section \<open>Searching\<close>



section \<open>Highlighting\<close>

text \<open>
  A found index lies in the searched string, and the three \<open>substring\<close> calls of
  \<open>highlightMatch\<close> cut the item at two points without losing a code unit.
\<close>

lemma indexOfFrom_range:
  "indexOfFrom s t i = - 1 \<or> (int i \<le> indexOfFrom s t i \<and> indexOfFrom s t i \<le> int (i + length s))"
  by (induction s arbitrary: i) (auto, force+)

lemma indexOf_nonneg: "indexOf s t \<noteq> - 1 \<Longrightarrow> 0 \<le> indexOf s t"
  using indexOfFrom_range [of s t 0] by (auto simp: indexOf_def)

lemma substring_nat:
  assumes "a \<le> b" and "b \<le> length s"
  shows "substring s (int a) (int b) = take (b - a) (drop a s)"
proof -
  have 1: "min (max (int a) 0) (int (length s)) = int a"
    and 2: "min (max (int b) 0) (int (length s)) = int b"
    using assms by simp_all
  have 3: "min (int a) (int b) = int a" and 4: "max (int a) (int b) = int b"
    using assms by simp_all
  have 5: "nat (int b - int a) = b - a" by simp
  show ?thesis
    unfolding substring_def Let_def 1 2 3 4 5 by simp
qed

lemma substring_clamp:
  assumes "0 \<le> a" and "a \<le> b"
  shows "substring s a b
       = substring s (int (min (nat a) (length s))) (int (min (nat b) (length s)))"
proof -
  have 1: "min (max a 0) (int (length s)) = int (min (nat a) (length s))"
    and 2: "min (max b 0) (int (length s)) = int (min (nat b) (length s))"
    using assms by simp_all
  have 3: "min (max (int (min (nat a) (length s))) 0) (int (length s)) = int (min (nat a) (length s))"
    and 4: "min (max (int (min (nat b) (length s))) 0) (int (length s)) = int (min (nat b) (length s))"
    by simp_all
  show ?thesis
    unfolding substring_def Let_def 1 2 3 4 ..
qed

lemma substring_inner:
  "k + n \<le> length s \<Longrightarrow>
   substring s 0 (int k) = take k s \<and>
   substring s (int k) (int k + int n) = take n (drop k s) \<and>
   substringFrom s (int k + int n) = drop (k + n) s"
  using substring_nat [of 0 k s] substring_nat [of k "k + n" s] substring_nat [of "k + n" "length s" s]
  by (simp add: substringFrom_def)

lemma substring_split:
  assumes "0 \<le> a" and "a \<le> b"
  shows "substring s 0 a @ substring s a b @ substringFrom s b = s"
proof -
  define i where "i = min (nat a) (length s)"
  define j where "j = min (nat b) (length s)"
  have ij: "i \<le> j" "j \<le> length s" using assms by (simp_all add: i_def j_def)
  have "substring s 0 a = substring s (int (min (nat 0) (length s))) (int i)"
    unfolding i_def using assms(1) by (intro substring_clamp) simp_all
  then have 1: "substring s 0 a = take i s"
    using substring_nat [of 0 i s] ij by simp
  have "substring s a b = substring s (int i) (int j)"
    unfolding i_def j_def using assms by (rule substring_clamp)
  then have 2: "substring s a b = take (j - i) (drop i s)"
    using substring_nat [of i j s] ij by simp
  have "substring s b (int (length s)) = substring s (int j) (int (length s))"
  proof (cases "b \<le> int (length s)")
    case True
    with assms substring_clamp [of b "int (length s)" s] show ?thesis
      by (simp add: j_def)
  next
    case False
    then show ?thesis by (simp add: j_def substring_def Let_def)
  qed
  then have 3: "substringFrom s b = drop j s"
    using substring_nat [of j "length s" s] ij by (simp add: substringFrom_def)
  have "take (j - i) (drop i s) @ drop j s = drop i s"
    using ij(1) by (metis append_take_drop_id drop_drop le_add_diff_inverse2)
  then show ?thesis by (simp add: 1 2 3)
qed

lemma highlightMatch_concat:
  "(case pieces (highlightMatch q item) of (p, m, s) \<Rightarrow> p @ m @ s) = item"
proof (cases "indexOf (toLowerCase item) (toLowerCase q) = - 1")
  case True
  then show ?thesis by (simp add: highlightMatch_def)
next
  case False
  then have "0 \<le> indexOf (toLowerCase item) (toLowerCase q)" by (rule indexOf_nonneg)
  then show ?thesis using False
    by (simp add: highlightMatch_def Let_def substring_split)
qed

lemma highlight_Canada:
  "highlightMatch (js ''ana'') (js ''Canada'') = Fragment (js ''C'') (js ''ana'') (js ''da'')"
  by code_simp




text \<open>
  On plain strings lower-casing works code unit by code unit, so positions in the
  lower-cased item are positions in the item, and the index found is the first position
  at which the item matches the query up to case.
\<close>

lemma plain_lowerUnit_length: "c \<noteq> 0x130 \<Longrightarrow> length (lowerUnit c) = 1"
  by (simp add: lowerUnit_def)

lemma plain_length: "plain s \<Longrightarrow> length (toLowerCase s) = length s"
  by (induction s) (auto simp: plain_def toLowerCase_def plain_lowerUnit_length)

lemma plain_take_drop: "plain s \<Longrightarrow> plain (take n s) \<and> plain (drop n s)"
  by (auto simp: plain_def dest: in_set_takeD in_set_dropD)

lemma plain_map: "plain s \<Longrightarrow> toLowerCase s = map (\<lambda>c. hd (lowerUnit c)) s"
  by (induction s) (auto simp: plain_def toLowerCase_def lowerUnit_def)

lemma plain_take: "plain s \<Longrightarrow> toLowerCase (take n s) = take n (toLowerCase s)"
  using plain_take_drop [of s n] by (simp add: plain_map take_map)

lemma plain_drop: "plain s \<Longrightarrow> toLowerCase (drop n s) = drop n (toLowerCase s)"
  using plain_take_drop [of s n] by (simp add: plain_map drop_map)

lemma indexOfFrom_first:
  "sublist t s \<Longrightarrow>
   \<exists>k. indexOfFrom s t i = int (i + k) \<and> prefix t (drop k s) \<and> (\<forall>j<k. \<not> prefix t (drop j s))"
proof (induction s arbitrary: i)
  case Nil
  then show ?case by simp
next
  case (Cons c cs)
  show ?case
  proof (cases "prefix t (c # cs)")
    case True
    then have "indexOfFrom (c # cs) t i = int (i + 0) \<and> prefix t (drop 0 (c # cs))
        \<and> (\<forall>j<0. \<not> prefix t (drop j (c # cs)))" by simp
    then show ?thesis by blast
  next
    case False
    with Cons.prems have "sublist t cs" by (simp add: sublist_Cons_right)
    from Cons.IH [OF this, of "i + 1"] obtain k where
      k: "indexOfFrom cs t (i + 1) = int (i + 1 + k)" "prefix t (drop k cs)"
         "\<forall>j<k. \<not> prefix t (drop j cs)" by blast
    have "\<forall>j<Suc k. \<not> prefix t (drop j (c # cs))"
    proof (intro allI impI)
      fix j assume "j < Suc k"
      then show "\<not> prefix t (drop j (c # cs))"
        using False k(3) by (cases j) auto
    qed
    with False k(1,2) have "indexOfFrom (c # cs) t i = int (i + Suc k)
        \<and> prefix t (drop (Suc k) (c # cs)) \<and> (\<forall>j<Suc k. \<not> prefix t (drop j (c # cs)))"
      by simp
    then show ?thesis by blast
  qed
qed

lemma highlightMatch_first_occurrence:
  assumes "plain item" "plain q" "ci_contains item q"
  shows "\<exists>k. k + length q \<le> length item \<and>
      highlightMatch q item =
        Fragment (take k item) (take (length q) (drop k item)) (drop (k + length q) item) \<and>
      toLowerCase (take (length q) (drop k item)) = toLowerCase q \<and>
      (\<forall>j<k. toLowerCase (take (length q) (drop j item)) \<noteq> toLowerCase q)"
proof -
  let ?L = "toLowerCase item" and ?Q = "toLowerCase q"
  have lenQ: "length ?Q = length q" and lenL: "length ?L = length item"
    using assms by (simp_all add: plain_length)
  from assms(3) have sub: "sublist ?Q ?L" by (simp add: ci_contains_def)
  from indexOfFrom_first [OF sub, of 0] obtain k where
    k: "indexOf ?L ?Q = int k" "prefix ?Q (drop k ?L)" "\<forall>j<k. \<not> prefix ?Q (drop j ?L)"
    by (auto simp: indexOf_def)
  have bound: "k + length q \<le> length item"
  proof (cases "q = []")
    case True
    then have "prefix ?Q (drop 0 ?L)" by (simp add: toLowerCase_def)
    with k(3) have "k = 0" by (cases k) auto
    with True show ?thesis by simp
  next
    case False
    from k(2) have "length ?Q \<le> length (drop k ?L)" by (rule prefix_length_le)
    with lenQ lenL False show ?thesis by (cases "k < length item") auto
  qed
  have take_eq: "take (length q) (drop k ?L) = ?Q"
    using k(2) lenQ by (metis append_eq_conv_conj prefix_def)
  have m: "toLowerCase (take (length q) (drop k item)) = ?Q"
    using assms(1) plain_take_drop [of item k] take_eq by (simp add: plain_take plain_drop)
  have first: "\<forall>j<k. toLowerCase (take (length q) (drop j item)) \<noteq> ?Q"
  proof (intro allI impI notI)
    fix j assume "j < k" and eq: "toLowerCase (take (length q) (drop j item)) = ?Q"
    have "take (length q) (drop j ?L) = ?Q"
      using assms(1) plain_take_drop [of item j] eq by (simp add: plain_take plain_drop)
    then have "prefix ?Q (drop j ?L)" by (metis take_is_prefix)
    with k(3) \<open>j < k\<close> show False by blast
  qed
  have "indexOf ?L ?Q \<noteq> - 1" using k(1) by simp
  then have "highlightMatch q item =
      Fragment (take k item) (take (length q) (drop k item)) (drop (k + length q) item)"
    using substring_inner [OF bound] k(1) by (simp add: highlightMatch_def Let_def)
  with bound m first show ?thesis by blast
qed

section \<open>Filtering\<close>

text \<open>
  The two tables pair each capital with the code unit 0x20 above it, and the capitals
  are two ranges of code units.
\<close>

lemma pairs_shift: "zip capitals smalls = map (\<lambda>c. (c, c + 0x20)) capitals"
  by code_simp

lemma capitals_ranges: "capitals = map of_nat ([65..<91] @ [192..<215] @ [216..<223])"
  by code_simp

lemma capitals_unat: "c \<in> set capitals \<longleftrightarrow> unat c \<in> {65..<91} \<union> {192..<215} \<union> {216..<223}"
proof
  assume "c \<in> set capitals"
  then obtain n where n: "n \<in> {65..<91} \<union> {192..<215} \<union> {216..<223}" and c: "c = of_nat n"
    by (auto simp only: capitals_ranges set_map set_append set_upt image_Un)
  from n have "n < 2 ^ LENGTH(16)" by auto
  with c have "unat c = n" by (simp add: of_nat_inverse)
  with n show "unat c \<in> {65..<91} \<union> {192..<215} \<union> {216..<223}" by simp
next
  assume "unat c \<in> {65..<91} \<union> {192..<215} \<union> {216..<223}"
  then have "of_nat (unat c) \<in> set capitals"
    by (simp only: capitals_ranges set_map set_append set_upt image_Un) blast
  then show "c \<in> set capitals" by simp
qed

lemma capital_range:
  "c \<in> set capitals \<longleftrightarrow> (0x41 \<le> c \<and> c \<le> 0x5A \<or> 0xC0 \<le> c \<and> c \<le> 0xDE \<and> c \<noteq> 0xD7)"
  unfolding capitals_unat by (simp add: word_le_nat_alt word_unat_eq_iff) arith

lemma same_letter_ranges:
  "same_letter a b \<longleftrightarrow>
     a = b \<or> (a \<in> set capitals \<and> b = a + 0x20) \<or> (b \<in> set capitals \<and> a = b + 0x20)"
  by (auto simp: same_letter_def pairs_shift)


lemma same_letter_code [code]:
  "same_letter a b \<longleftrightarrow>
     a = b \<or>
     ((0x41 \<le> a \<and> a \<le> 0x5A \<or> 0xC0 \<le> a \<and> a \<le> 0xDE \<and> a \<noteq> 0xD7) \<and> b = a + 0x20) \<or>
     ((0x41 \<le> b \<and> b \<le> 0x5A \<or> 0xC0 \<le> b \<and> b \<le> 0xDE \<and> b \<noteq> 0xD7) \<and> a = b + 0x20)"
  by (simp add: same_letter_ranges capital_range)










section \<open>Debouncing\<close>

lemma useDebounce_idle:
  "timers e = [] \<Longrightarrow>
   useDebounce delay a e =
     e\<lparr>timers := [(nextId e, clock e + delay, a)], nextId := Suc (nextId e),
       timeoutRef := Some (nextId e)\<rparr>"
  by (cases "timeoutRef e") (simp_all add: useDebounce_def clearTimeout_def setTimeout_def)

lemma useDebounce_replace:
  "timers e = [(i, d, b)] \<Longrightarrow> timeoutRef e = Some i \<Longrightarrow>
   useDebounce delay a e =
     e\<lparr>timers := [(nextId e, clock e + delay, a)], nextId := Suc (nextId e),
       timeoutRef := Some (nextId e)\<rparr>"
  by (simp add: useDebounce_def clearTimeout_def setTimeout_def)

lemma advance_idle: "timers e = [] \<Longrightarrow> advance cb t e = e\<lparr>clock := max (clock e) t\<rparr>"
  by (simp add: advance_def)

lemma advance_early:
  "timers e = [(i, d, a)] \<Longrightarrow> t < d \<Longrightarrow> advance cb t e = e\<lparr>clock := max (clock e) t\<rparr>"
  by (simp add: advance_def due_def)

lemma advance_fire:
  "timers e = [(i, d, a)] \<Longrightarrow> d \<le> t \<Longrightarrow>
   advance cb t e =
     e\<lparr>clock := max (clock e) t, timers := [], app := cb a (app e), fired := fired e @ [(d, a)]\<rparr>"
  by (simp add: advance_def due_def)

lemma runCalls_pending:
  "cs \<noteq> [] \<Longrightarrow> withinQuiet delay (map fst cs) \<Longrightarrow> clock e \<le> fst (hd cs) \<Longrightarrow>
   timers e = [] \<or> (\<exists>i d b. timers e = [(i, d, b)] \<and> timeoutRef e = Some i \<and> fst (hd cs) < d) \<Longrightarrow>
   \<exists>i. runCalls cb delay cs e =
     e\<lparr>clock := fst (last cs), timers := [(i, fst (last cs) + delay, snd (last cs))],
       nextId := Suc i, timeoutRef := Some i\<rparr>"
proof (induction cs arbitrary: e)
  case Nil
  then show ?case by simp
next
  case (Cons c cs)
  obtain t a where c: "c = (t, a)" by (cases c)
  have le: "clock e \<le> t" using Cons.prems(3) c by simp
  have adv: "advance cb t e = e\<lparr>clock := t\<rparr>"
    using Cons.prems(4) le c by (auto simp: advance_idle advance_early max_def)
  let ?e1 = "useDebounce delay a (advance cb t e)"
  have e1: "?e1 = e\<lparr>clock := t, timers := [(nextId e, t + delay, a)], nextId := Suc (nextId e),
       timeoutRef := Some (nextId e)\<rparr>"
    using Cons.prems(4) by (auto simp: adv useDebounce_idle useDebounce_replace)
  show ?case
  proof (cases cs)
    case Nil
    then show ?thesis using e1 c by auto
  next
    case (Cons c' cs')
    obtain u b where c': "c' = (u, b)" by (cases c')
    have q: "t \<le> u" "u < t + delay" "withinQuiet delay (map fst cs)"
      using Cons.prems(2) c c' Cons by auto
    have "\<exists>i. runCalls cb delay cs ?e1 =
       ?e1\<lparr>clock := fst (last cs), timers := [(i, fst (last cs) + delay, snd (last cs))],
         nextId := Suc i, timeoutRef := Some i\<rparr>"
    proof (rule Cons.IH)
      show "cs \<noteq> []" using Cons by simp
      show "withinQuiet delay (map fst cs)" by (rule q(3))
      show "clock ?e1 \<le> fst (hd cs)" using q(1) c' Cons by (simp add: e1)
      show "timers ?e1 = [] \<or> (\<exists>i d b. timers ?e1 = [(i, d, b)] \<and> timeoutRef ?e1 = Some i \<and> fst (hd cs) < d)"
        using q(2) c' Cons by (simp add: e1)
    qed
    then show ?thesis using c Cons by (auto simp: e1)
  qed
qed

text \<open>
  C2. Let one or more calls of the debounced function start with no timeout pending,
  each call coming within the quiet period of the one before. Then nothing runs during
  the calls, exactly one timeout is pending after them (every earlier one was cleared,
  none is queued), nothing runs before the quiet period after the last call is over,
  and once it is over the callback has run exactly once, with the arguments of the last
  call.
\<close>

theorem debounce_coalesces:
  assumes "calls \<noteq> []" and "withinQuiet delay (map fst calls)"
    and "timers e = []" and "clock e \<le> fst (hd calls)"
  shows "fired (runCalls cb delay calls e) = fired e \<and>
     app (runCalls cb delay calls e) = app e \<and>
     map snd (timers (runCalls cb delay calls e)) = [(fst (last calls) + delay, snd (last calls))] \<and>
     (T < fst (last calls) + delay \<longrightarrow>
        fired (advance cb T (runCalls cb delay calls e)) = fired e \<and>
        app (advance cb T (runCalls cb delay calls e)) = app e) \<and>
     (fst (last calls) + delay \<le> T \<longrightarrow>
        fired (advance cb T (runCalls cb delay calls e))
          = fired e @ [(fst (last calls) + delay, snd (last calls))] \<and>
        app (advance cb T (runCalls cb delay calls e)) = cb (snd (last calls)) (app e) \<and>
        timers (advance cb T (runCalls cb delay calls e)) = [])"
proof -
  from runCalls_pending [OF assms(1,2,4), of cb] assms(3)
  obtain i where r: "runCalls cb delay calls e =
     e\<lparr>clock := fst (last calls), timers := [(i, fst (last calls) + delay, snd (last calls))],
       nextId := Suc i, timeoutRef := Some i\<rparr>" by auto
  let ?r = "runCalls cb delay calls e"
  have tm: "timers ?r = [(i, fst (last calls) + delay, snd (last calls))]" by (simp add: r)
  have base: "fired ?r = fired e" "app ?r = app e" by (simp_all add: r)
  have early: "T < fst (last calls) + delay \<Longrightarrow> advance cb T ?r = ?r\<lparr>clock := max (clock ?r) T\<rparr>"
    using tm by (rule advance_early)
  have late: "fst (last calls) + delay \<le> T \<Longrightarrow> advance cb T ?r =
      ?r\<lparr>clock := max (clock ?r) T, timers := [], app := cb (snd (last calls)) (app ?r),
         fired := fired ?r @ [(fst (last calls) + delay, snd (last calls))]\<rparr>"
    using tm by (rule advance_fire)
  show ?thesis
    using tm base early late by simp
qed

theorem debounce_coalesces_witness:
  "fired (advance (\<lambda>a n. Suc n) 950
      (runCalls (\<lambda>a n. Suc n) 500 [(0, js ''c''), (100, js ''ca''), (450, js ''can'')]
         \<lparr>clock = 0, timers = [], nextId = 1, timeoutRef = None, app = 0::nat, fired = []\<rparr>))
     = [(950, js ''can'')] \<and>
   app (advance (\<lambda>a n. Suc n) 950
      (runCalls (\<lambda>a n. Suc n) 500 [(0, js ''c''), (100, js ''ca''), (450, js ''can'')]
         \<lparr>clock = 0, timers = [], nextId = 1, timeoutRef = None, app = 0::nat, fired = []\<rparr>))
     = 1"
  using debounce_coalesces [where calls = "[(0, js ''c''), (100, js ''ca''), (450, js ''can'')]"
      and delay = 500 and T = 950 and cb = "\<lambda>a n. Suc n"
      and e = "\<lparr>clock = 0, timers = [], nextId = 1, timeoutRef = None, app = 0::nat, fired = []\<rparr>"]
  by simp

text \<open>
  Three keystrokes within the quiet period on the widget itself: the timeout set at mount
  and those of the first two keystrokes are cleared, and one filter pass runs, for the
  last value, 500 ms after the last keystroke.
\<close>

lemma typing_burst_fires_once:
  "fired (run test_data
     [Change (js ''i''), Tick 100, Change (js ''it''), Tick 450, Change (js ''ite''),
      Tick 949]) = [] \<and>
   fired (run test_data
     [Change (js ''i''), Tick 100, Change (js ''it''), Tick 450, Change (js ''ite''),
      Tick 2000]) = [(950, js ''ite'')]"
  by code_simp

section \<open>Every run keeps the invariant\<close>

lemma inputEffects_eq:
  "timers e = [] \<or> (\<exists>i d b. timers e = [(i, d, b)] \<and> timeoutRef e = Some i) \<Longrightarrow>
   inputEffects e =
     e\<lparr>timers := [(nextId e, clock e + 500, inputValue (app e))], nextId := Suc (nextId e),
       timeoutRef := Some (nextId e),
       app := (app e)\<lparr>loading := True,
                filteredData := (if inputValue (app e) = [] then [] else filteredData (app e))\<rparr>\<rparr>"
  by (auto simp: inputEffects_def Let_def useDebounce_idle useDebounce_replace)

lemma inputEffects_inv:
  "timers e = [] \<or> (\<exists>i d b. timers e = [(i, d, b)] \<and> timeoutRef e = Some i) \<Longrightarrow>
   widget_inv (inputEffects e)"
  by (simp add: inputEffects_eq widget_inv_def)

lemma mount_inv: "widget_inv mount"
  unfolding mount_def by (rule inputEffects_inv) simp

lemma effects_inv:
  assumes "widget_inv e" and "timers e' = timers e" and "timeoutRef e' = timeoutRef e"
    and "loading (app e') = loading (app e)"
    and "inputValue (app e') = [] \<longrightarrow> inputValue (app e') \<noteq> inputValue (app e) \<or> filteredData (app e') = []"
  shows "widget_inv (effects (inputValue (app e)) e')"
proof (cases "inputValue (app e') = inputValue (app e)")
  case True
  then show ?thesis using assms by (auto simp: effects_def widget_inv_def)
next
  case False
  have "timers e' = [] \<or> (\<exists>i d b. timers e' = [(i, d, b)] \<and> timeoutRef e' = Some i)"
    using assms(1,2,3) by (auto simp: widget_inv_def)
  then have "widget_inv (inputEffects e')" by (rule inputEffects_inv)
  then show ?thesis using False by (simp add: effects_def)
qed

lemma click_fields:
  "filteredData (click tg hook s) = [] \<and> \<not> showDropdown (click tg hook s) \<and>
   loading (click tg hook s) = loading s \<and>
   inputValue (click tg hook s) = (case tg of Row i \<Rightarrow> filteredData s ! i | _ \<Rightarrow> inputValue s)"
  by (cases tg) (simp_all add: click_def targetHandler_def handleClick_def handleOutsideClick_def Let_def)

lemma step_inv: "widget_inv e \<Longrightarrow> widget_inv (step data ev e)"
proof (cases ev)
  case (Change v)
  assume inv: "widget_inv e"
  have "widget_inv (effects (inputValue (app e)) (e\<lparr>app := handleChange v (app e)\<rparr>))"
    using inv by (intro effects_inv) (auto simp: handleChange_def widget_inv_def)
  then show ?thesis using Change by simp
next
  case (Click tg hook)
  assume inv: "widget_inv e"
  have "widget_inv (effects (inputValue (app e)) (e\<lparr>app := click tg hook (app e)\<rparr>))"
    using inv by (intro effects_inv) (simp_all add: click_fields)
  then show ?thesis using Click inv by simp
next
  case (Tick t)
  assume inv: "widget_inv e"
  show ?thesis
  proof (cases "timers e")
    case Nil
    then show ?thesis using inv Tick by (simp add: advance_idle widget_inv_def)
  next
    case (Cons x xs)
    with inv obtain i d where tm: "timers e = [(i, d, inputValue (app e))]"
      by (auto simp: widget_inv_def)
    show ?thesis
    proof (cases "d \<le> t")
      case True
      then show ?thesis using inv Tick tm
        by (simp add: advance_fire [OF tm] widget_inv_def debounceFilter_callback_def)
    next
      case False
      then have "t < d" by simp
      then show ?thesis using inv Tick tm
        by (simp add: advance_early [OF tm] widget_inv_def)
    qed
  qed
qed

lemma fold_step_inv: "widget_inv e \<Longrightarrow> widget_inv (fold (step data) evs e)"
  by (induction evs arbitrary: e) (simp_all add: step_inv)

lemma run_inv: "widget_inv (run data evs)"
  unfolding run_def by (rule fold_step_inv) (rule mount_inv)

section \<open>Clicks\<close>

lemma app_useDebounce: "app (useDebounce delay a e) = app e"
  by (cases "timeoutRef e") (simp_all add: useDebounce_def clearTimeout_def setTimeout_def)

lemma app_inputEffects:
  "app (inputEffects e) =
     (app e)\<lparr>loading := True,
       filteredData := (if inputValue (app e) = [] then [] else filteredData (app e))\<rparr>"
  by (simp add: inputEffects_def Let_def app_useDebounce)

lemma app_effects_fields:
  "showDropdown (app (effects b e)) = showDropdown (app e) \<and>
   inputValue (app (effects b e)) = inputValue (app e) \<and>
   (filteredData (app e) = [] \<longrightarrow> filteredData (app (effects b e)) = [])"
  by (simp add: effects_def app_inputEffects)

lemma run_snoc: "run data (evs @ [ev]) = step data ev (run data evs)"
  by (simp add: run_def)

text \<open>
  C3, as amended. In every state, a click outside the widget hides the dropdown and
  clears the results, whatever the hook \<open>useOutsideClick\<close> did with the click. A click
  on a rendered row of the dropdown is a selection: it hides the dropdown as well and
  makes the row's item the query. (What a click inside the dropdown does to the results
  is left open here.)
\<close>

theorem click_dismisses:
  "\<not> showDropdown (app (step data (Click Outside hook) e)) \<and>
   filteredData (app (step data (Click Outside hook) e)) = [] \<and>
   (rendered (Row i) (app e) \<longrightarrow>
      \<not> showDropdown (app (step data (Click (Row i) hook) e)) \<and>
      inputValue (app (step data (Click (Row i) hook) e)) = filteredData (app e) ! i)"
  by (simp add: rendered_def app_effects_fields click_fields)

theorem click_dismisses_witness:
  "rendered (Row 0) (app (run test_data [Change (js ''item''), Tick 500])) \<and>
   \<not> showDropdown (app (step test_data (Click (Row 0) True)
        (run test_data [Change (js ''item''), Tick 500]))) \<and>
   inputValue (app (step test_data (Click (Row 0) True)
        (run test_data [Change (js ''item''), Tick 500]))) = js ''Item 1'' \<and>
   \<not> showDropdown (app (step test_data (Click Outside True)
        (run test_data [Change (js ''item''), Tick 500]))) \<and>
   filteredData (app (step test_data (Click Outside True)
        (run test_data [Change (js ''item''), Tick 500]))) = []"
proof -
  let ?e = "run test_data [Change (js ''item''), Tick 500]"
  have r: "rendered (Row 0) (app ?e)" by code_simp
  have n: "filteredData (app ?e) ! 0 = js ''Item 1''" by code_simp
  from click_dismisses [of test_data True ?e 0] r n show ?thesis by simp
qed

text \<open>
  C3 as stated fails: with the three test items listed after typing \<open>item\<close>, a click
  on the first row, inside the dropdown, leaves the dropdown hidden.
\<close>

theorem click_inside_dropdown_hides_it:
  "showDropdown (app (run test_data [Change (js ''item''), Tick 500])) \<and>
   rendered (Row 0) (app (run test_data [Change (js ''item''), Tick 500])) \<and>
   \<not> showDropdown (app (run test_data [Change (js ''item''), Tick 500, Click (Row 0) False]))"
  by code_simp

section \<open>Selection\<close>

lemma handleClick_frame:
  "inputValue (handleClick v s) = v \<and> \<not> showDropdown (handleClick v s) \<and>
   filteredData (handleClick v s) = filteredData s \<and> loading (handleClick v s) = loading s"
  by (simp add: handleClick_def)

text \<open>
  C8 at a concrete selection. With the candidates Canada and Cuba listed after typing
  \<open>c\<close>, the click on the row of Cuba makes Cuba the query and hides the dropdown, and
  the results are empty afterwards: \<open>handleClick\<close> itself leaves them as they are
  (\<open>handleClick_frame\<close>), but the same click reaches the document listener, which
  clears them.
\<close>

theorem selection_click_clears_results:
  "filteredData (app (run [js ''Canada'', js ''Cuba''] [Change (js ''c''), Tick 500]))
     = [js ''Canada'', js ''Cuba''] \<and>
   app (run [js ''Canada'', js ''Cuba''] [Change (js ''c''), Tick 500, Click (Row 1) False])
     = \<lparr>inputValue = js ''Cuba'', filteredData = [], loading = True, showDropdown = False\<rparr>"
  by code_simp

section \<open>The empty query\<close>

lemma empty_query_empty_results:
  "inputValue (app (run data evs)) = [] \<Longrightarrow> filteredData (app (run data evs)) = []"
  using run_inv [of data evs] by (simp add: widget_inv_def)

text \<open>
  C4 at a concrete run. After typing one character and deleting it the query is empty
  and the results are empty (as \<open>empty_query_empty_results\<close> shows for every run), but
  \<open>showDropdown\<close> is still on: the dropdown is mounted and shows the no-match row.
\<close>

theorem empty_query_dropdown_mounted:
  "inputValue (app (run test_data [Change (js ''I''), Change []])) = [] \<and>
   filteredData (app (run test_data [Change (js ''I''), Change []])) = [] \<and>
   renderDropdown (app (run test_data [Change (js ''I''), Change []])) = Some NoMatch"
  by code_simp

section \<open>Loading\<close>

text \<open>
  C5. In every state the running widget reaches, loading is on exactly while a timeout
  is pending; a pending timeout is the only one and carries the current query; and when
  time passes, either no filter pass runs, or exactly one runs, for the current query,
  switching loading off and leaving nothing pending that could run later.
\<close>

theorem loading_last_write_wins:
  "loading (app (run data evs)) = (timers (run data evs) \<noteq> []) \<and>
   (timers (run data evs) = [] \<or>
    (\<exists>i d. timers (run data evs) = [(i, d, inputValue (app (run data evs)))])) \<and>
   ((fired (step data (Tick t) (run data evs)) = fired (run data evs) \<and>
     app (step data (Tick t) (run data evs)) = app (run data evs)) \<or>
    (\<exists>d. fired (step data (Tick t) (run data evs))
            = fired (run data evs) @ [(d, inputValue (app (run data evs)))] \<and>
         app (step data (Tick t) (run data evs))
            = debounceFilter_callback data (inputValue (app (run data evs))) (app (run data evs)) \<and>
         \<not> loading (app (step data (Tick t) (run data evs))) \<and>
         timers (step data (Tick t) (run data evs)) = []))"
proof -
  let ?e = "run data evs"
  have inv: "widget_inv ?e" by (rule run_inv)
  have 1: "loading (app ?e) = (timers ?e \<noteq> [])"
    and 2: "timers ?e = [] \<or> (\<exists>i d. timers ?e = [(i, d, inputValue (app ?e))])"
    using inv by (auto simp: widget_inv_def)
  have 3: "(fired (step data (Tick t) ?e) = fired ?e \<and> app (step data (Tick t) ?e) = app ?e) \<or>
    (\<exists>d. fired (step data (Tick t) ?e) = fired ?e @ [(d, inputValue (app ?e))] \<and>
         app (step data (Tick t) ?e) = debounceFilter_callback data (inputValue (app ?e)) (app ?e) \<and>
         \<not> loading (app (step data (Tick t) ?e)) \<and>
         timers (step data (Tick t) ?e) = [])"
  proof (cases "timers ?e = []")
    case True
    then show ?thesis by (simp add: advance_idle)
  next
    case False
    with 2 obtain i d where tm: "timers ?e = [(i, d, inputValue (app ?e))]" by blast
    show ?thesis
    proof (cases "d \<le> t")
      case True
      have "fired (step data (Tick t) ?e) = fired ?e @ [(d, inputValue (app ?e))] \<and>
         app (step data (Tick t) ?e) = debounceFilter_callback data (inputValue (app ?e)) (app ?e) \<and>
         \<not> loading (app (step data (Tick t) ?e)) \<and>
         timers (step data (Tick t) ?e) = []"
        using True by (simp add: advance_fire [OF tm] debounceFilter_callback_def)
      then show ?thesis by blast
    next
      case False
      then have "t < d" by simp
      then show ?thesis by (simp add: advance_early [OF tm])
    qed
  qed
  from 1 2 3 show ?thesis by blast
qed

section \<open>Highlighting: the claims\<close>

text \<open>
  C6 at a concrete input. The candidate is U+0130 followed by \<open>stanbul\<close>, the query is
  \<open>s\<close>. The query occurs in the candidate, at position 1; the lower-cased candidate is
  one code unit longer, the search finds the query at position 2 there, and the span
  taken from the candidate at position 2 is \<open>t\<close>. For plain candidates and queries, so
  for all over U+0000 to U+00FF, the claim holds (\<open>highlightMatch_first_occurrence\<close>),
  as it does for Canada and \<open>ana\<close> (\<open>highlight_Canada\<close>).
\<close>

theorem highlightMatch_shifted_span:
  "ci_contains (0x130 # js ''stanbul'') (js ''s'') \<and>
   take (length (js ''s'')) (drop 1 (0x130 # js ''stanbul'')) = js ''s'' \<and>
   pieces (highlightMatch (js ''s'') (0x130 # js ''stanbul''))
     = (0x130 # js ''s'', js ''t'', js ''anbul'')"
  by code_simp




text \<open>
  C10 at a concrete input. For the candidate U+0130 followed by \<open>stanbul\<close> and the
  query \<open>l\<close> a match is found (the result is a fragment), the three pieces give back
  the candidate, as they do for every candidate and query (\<open>highlightMatch_concat\<close>), but the match
  piece is empty while the query has length 1: the position found in the lower-cased
  candidate is the length of the candidate itself.
\<close>

theorem highlightMatch_short_match:
  "highlightMatch (js ''l'') (0x130 # js ''stanbul'') = Fragment (0x130 # js ''stanbul'') [] [] \<and>
   length (js ''l'') = 1"
  by code_simp

section \<open>Candidate lists of any value\<close>

lemma filterItems_strings:
  "filterItems v (map String xs)
     = Inr (filter (\<lambda>item. includesStr (toLowerCase item) (toLowerCase v)) xs)"
  by (induction xs) simp_all

lemma filterItems_throws: "\<not> list_all isString xs \<Longrightarrow> filterItems v xs = Inl TypeError"
proof (induction xs)
  case Nil
  then show ?case by simp
next
  case (Cons x xs)
  then show ?case by (cases x) (auto split: sum.splits)
qed

lemma dataFilter_throws: "\<not> isStringArray data \<Longrightarrow> dataFilter data v = Inl TypeError"
  by (cases data) (simp_all add: dataFilter_def filterItems_throws)

text \<open>
  C9, as amended. For a candidate list that is an array of strings the filter pass never
  throws and stores what the typed filter pass stores; in particular the empty array
  gives empty results for a non-empty query. For a non-empty query and a candidate list
  that is absent (undefined or null) or is otherwise not an array of strings, the filter pass throws a
  TypeError, and neither the results nor loading are set. For the empty query the
  candidate list is not read, and loading is switched off.
\<close>

theorem filter_pass_any_data:
  "debounceFilter_callback_untyped (Array (map String xs)) v s
     = Inr (debounceFilter_callback xs v s) \<and>
   (v \<noteq> [] \<longrightarrow> debounceFilter_callback_untyped (Array []) v s
                  = Inr (s\<lparr>filteredData := [], loading := False\<rparr>)) \<and>
   (v \<noteq> [] \<and> \<not> isStringArray data \<longrightarrow>
      debounceFilter_callback_untyped data v s = Inl TypeError) \<and>
   debounceFilter_callback_untyped data [] s = Inr (s\<lparr>loading := False\<rparr>)"
proof -
  have 1: "debounceFilter_callback_untyped (Array (map String xs)) v s
     = Inr (debounceFilter_callback xs v s)"
    by (simp add: debounceFilter_callback_untyped_def debounceFilter_callback_def dataFilter_def
        filterItems_strings)
  have 2: "v \<noteq> [] \<longrightarrow> debounceFilter_callback_untyped (Array []) v s
                  = Inr (s\<lparr>filteredData := [], loading := False\<rparr>)"
    by (simp add: debounceFilter_callback_untyped_def dataFilter_def)
  have 3: "v \<noteq> [] \<and> \<not> isStringArray data \<longrightarrow>
      debounceFilter_callback_untyped data v s = Inl TypeError"
    by (simp add: debounceFilter_callback_untyped_def dataFilter_throws)
  have 4: "debounceFilter_callback_untyped data [] s = Inr (s\<lparr>loading := False\<rparr>)"
    by (simp add: debounceFilter_callback_untyped_def)
  from 1 2 3 4 show ?thesis by blast
qed

theorem filter_pass_any_data_witness:
  "js ''it'' \<noteq> [] \<and> \<not> isStringArray Undefined \<and>
   debounceFilter_callback_untyped Undefined (js ''it'')
     \<lparr>inputValue = js ''it'', filteredData = [], loading = True, showDropdown = True\<rparr>
     = Inl TypeError \<and>
   debounceFilter_callback_untyped (Array []) (js ''it'')
     \<lparr>inputValue = js ''it'', filteredData = [], loading = True, showDropdown = True\<rparr>
     = Inr (\<lparr>inputValue = js ''it'', filteredData = [], loading = True, showDropdown = True\<rparr>
             \<lparr>filteredData := [], loading := False\<rparr>)"
proof -
  have ne: "js ''it'' \<noteq> []" by (simp add: js_def)
  have ns: "\<not> isStringArray Undefined" by simp
  from filter_pass_any_data [of "[]" "js ''it''"
      "\<lparr>inputValue = js ''it'', filteredData = [], loading = True, showDropdown = True\<rparr>" Undefined]
    ne ns show ?thesis by blast
qed

text \<open>
  C9 as stated fails: with an absent candidate list and a non-empty query the filter
  pass throws.
\<close>

theorem filter_pass_throws_without_data:
  "debounceFilter_callback_untyped Undefined (js ''it'')
     \<lparr>inputValue = js ''it'', filteredData = [], loading = True, showDropdown = True\<rparr>
     = Inl TypeError \<and>
   debounceFilter_callback_untyped (Array [Number 1, Number 2]) (js ''it'')
     \<lparr>inputValue = js ''it'', filteredData = [], loading = True, showDropdown = True\<rparr>
     = Inl TypeError"
  by code_simp

end
